theory Spec2Isabelle
  imports Main "HOL-Library.Word"
begin

section \<open>Text, bytes and the UTF-8 codec\<close>

text \<open>
  \<^verbatim>\<open>write_instructions.py\<close> is a script of three statements: it binds a text literal
  \<^verbatim>\<open>content\<close>, opens a fixed path with \<^verbatim>\<open>open(path, 'w', encoding='utf-8')\<close> inside a
  \<^verbatim>\<open>with\<close> block, calls \<^verbatim>\<open>f.write(content)\<close> and finally \<^verbatim>\<open>print('done', len(content))\<close>.
  A Python 3 \<^verbatim>\<open>str\<close> is a sequence of Unicode code points, so text is a list of
  naturals below \<open>0x110000\<close>; a file holds bytes.
\<close>

type_synonym codepoint = nat
type_synonym ustr = "codepoint list"
type_synonym byte = "8 word"

definition codepoints :: "string \<Rightarrow> ustr" where
  "codepoints s = map of_char s"

definition is_surrogate :: "codepoint \<Rightarrow> bool" where
  "is_surrogate c = (0xD800 \<le> c \<and> c \<le> 0xDFFF)"

text \<open>The characters the strict UTF-8 codec can encode: every code point but the surrogates.\<close>

definition encodable :: "codepoint \<Rightarrow> bool" where
  "encodable c = (c < 0x110000 \<and> \<not> is_surrogate c)"

definition byte_of :: "nat \<Rightarrow> byte" where
  "byte_of n = of_nat n"

text \<open>
  The \<^verbatim>\<open>'utf-8'\<close> codec with the default \<^verbatim>\<open>errors='strict'\<close>: one to four bytes for
  a code point, \<^verbatim>\<open>UnicodeEncodeError\<close> (here \<open>None\<close>) for a surrogate.
\<close>

definition utf8_encode_char :: "codepoint \<Rightarrow> byte list option" where
  "utf8_encode_char c =
     (if c < 0x80 then Some [byte_of c]
      else if c < 0x800 then Some [byte_of (0xC0 + c div 64), byte_of (0x80 + c mod 64)]
      else if is_surrogate c then None
      else if c < 0x10000 then
        Some [byte_of (0xE0 + c div 4096), byte_of (0x80 + c div 64 mod 64),
              byte_of (0x80 + c mod 64)]
      else if c < 0x110000 then
        Some [byte_of (0xF0 + c div 262144), byte_of (0x80 + c div 4096 mod 64),
              byte_of (0x80 + c div 64 mod 64), byte_of (0x80 + c mod 64)]
      else None)"

fun utf8_encode :: "ustr \<Rightarrow> byte list option" where
  "utf8_encode [] = Some []"
| "utf8_encode (c # cs) =
     (case utf8_encode_char c of
        None \<Rightarrow> None
      | Some bs \<Rightarrow> (case utf8_encode cs of None \<Rightarrow> None | Some r \<Rightarrow> Some (bs @ r)))"

definition is_cont :: "byte \<Rightarrow> bool" where
  "is_cont b = (0x80 \<le> unat b \<and> unat b < 0xC0)"

definition cont_bits :: "byte \<Rightarrow> nat" where
  "cont_bits b = unat b - 0x80"

text \<open>
  The strict decoder, as \<^verbatim>\<open>bytes.decode('utf-8')\<close>: it refuses stray continuation bytes,
  overlong forms, surrogates, values above \<open>0x10FFFF\<close> and truncated sequences.
\<close>

fun utf8_decode :: "byte list \<Rightarrow> ustr option" where
  "utf8_decode [] = Some []"
| "utf8_decode (b # bs) =
     (if unat b < 0x80 then map_option ((#) (unat b)) (utf8_decode bs)
      else if unat b < 0xC2 then None
      else if unat b < 0xE0 then
        (case bs of
           b1 # r \<Rightarrow>
             if is_cont b1
             then map_option ((#) ((unat b - 0xC0) * 64 + cont_bits b1)) (utf8_decode r)
             else None
         | _ \<Rightarrow> None)
      else if unat b < 0xF0 then
        (case bs of
           b1 # b2 # r \<Rightarrow>
             (let c = (unat b - 0xE0) * 4096 + cont_bits b1 * 64 + cont_bits b2
              in if is_cont b1 \<and> is_cont b2 \<and> 0x800 \<le> c \<and> \<not> is_surrogate c
                 then map_option ((#) c) (utf8_decode r) else None)
         | _ \<Rightarrow> None)
      else if unat b < 0xF5 then
        (case bs of
           b1 # b2 # b3 # r \<Rightarrow>
             (let c = (unat b - 0xF0) * 262144 + cont_bits b1 * 4096
                      + cont_bits b2 * 64 + cont_bits b3
              in if is_cont b1 \<and> is_cont b2 \<and> is_cont b3 \<and> 0x10000 \<le> c \<and> c < 0x110000
                 then map_option ((#) c) (utf8_decode r) else None)
         | _ \<Rightarrow> None)
      else None)"

subsection \<open>Newline handling of text-mode files\<close>

text \<open>
  The file is opened without a \<^verbatim>\<open>newline\<close> argument. In that mode a text file replaces
  every \<^verbatim>\<open>'\n'\<close> written by \<^verbatim>\<open>os.linesep\<close>, and on reading turns \<^verbatim>\<open>'\r\n'\<close> and a lone
  \<^verbatim>\<open>'\r'\<close> into \<^verbatim>\<open>'\n'\<close>. \<^verbatim>\<open>os.linesep\<close> is a constant of the platform.
\<close>

datatype platform = Posix | Windows

fun linesep :: "platform \<Rightarrow> ustr" where
  "linesep Posix = [0x0A]"
| "linesep Windows = [0x0D, 0x0A]"

definition translate_newlines :: "ustr \<Rightarrow> ustr \<Rightarrow> ustr" where
  "translate_newlines sep s = concat (map (\<lambda>c. if c = 0x0A then sep else [c]) s)"

fun universal_newlines :: "ustr \<Rightarrow> ustr" where
  "universal_newlines [] = []"
| "universal_newlines (c # cs) =
     (if c = 0x0D then
        (case cs of
           [] \<Rightarrow> [0x0A]
         | d # ds \<Rightarrow> if d = 0x0A then 0x0A # universal_newlines ds
                     else 0x0A # universal_newlines cs)
      else c # universal_newlines cs)"

text \<open>What \<^verbatim>\<open>open(path, encoding='utf-8').read()\<close> returns for a file holding \<open>bs\<close>.\<close>

definition read_text :: "byte list \<Rightarrow> ustr option" where
  "read_text bs = map_option universal_newlines (utf8_decode bs)"

section \<open>The file system, file objects and standard output\<close>

type_synonym path = "string list"

text \<open>A node is a regular file (write permission, content) or a directory (write permission).\<close>

datatype node = File bool "byte list" | Dir bool

text \<open>An open text file: the file it writes to and the bytes not yet flushed.\<close>

record handle =
  h_path :: path
  pending :: "byte list"

record world =
  os :: platform
  cwd :: path
  nodes :: "path \<Rightarrow> node option"
  free_space :: nat
  open_files :: "(nat \<times> handle) list"
  stdout :: ustr

datatype os_error =
  FileNotFoundError | PermissionError | IsADirectoryError | NotADirectoryError | NoSpaceError

datatype error = OSError os_error | UnicodeEncodeError | ValueError

subsection \<open>Paths\<close>

definition is_sep :: "platform \<Rightarrow> char \<Rightarrow> bool" where
  "is_sep pf c = (c = CHR ''/'' \<or> (pf = Windows \<and> c = CHR 0x5C))"

text \<open>The components of a path string; repeated separators count once.\<close>

fun components :: "(char \<Rightarrow> bool) \<Rightarrow> string \<Rightarrow> string \<Rightarrow> string list" where
  "components sep acc [] = (if acc = [] then [] else [acc])"
| "components sep acc (c # cs) =
     (if sep c then (if acc = [] then components sep [] cs else acc # components sep [] cs)
      else components sep (acc @ [c]) cs)"

definition is_absolute :: "platform \<Rightarrow> string \<Rightarrow> bool" where
  "is_absolute pf s =
     (case pf of
        Posix \<Rightarrow> (case s of [] \<Rightarrow> False | c # _ \<Rightarrow> c = CHR ''/'')
      | Windows \<Rightarrow> (case s of _ # c # _ \<Rightarrow> c = CHR '':'' | _ \<Rightarrow> False))"

text \<open>
  A path string names a node by its components from the root: those of the string itself
  when it is absolute (on Windows the first one is the drive), after those of the working
  directory otherwise. Names are taken as they are: \<^verbatim>\<open>.\<close>, \<^verbatim>\<open>..\<close>, links and case folding
  are not part of this model.
\<close>

definition resolve :: "world \<Rightarrow> string \<Rightarrow> path" where
  "resolve w s =
     (if is_absolute (os w) s then [] else cwd w) @ components (is_sep (os w)) [] s"

definition parent :: "path \<Rightarrow> path" where
  "parent p = butlast p"

fun is_dir :: "node option \<Rightarrow> bool" where
  "is_dir (Some (Dir _)) = True"
| "is_dir _ = False"

text \<open>
  Looking a path up walks it from the root, one component at a time, and goes on only
  through directories: nothing exists below a missing directory or below a regular file.
\<close>

fun walk :: "(path \<Rightarrow> node option) \<Rightarrow> path \<Rightarrow> string list \<Rightarrow> node option" where
  "walk ns cur [] = ns cur"
| "walk ns cur (c # cs) = (if is_dir (ns cur) then walk ns (cur @ [c]) cs else None)"

definition stat :: "world \<Rightarrow> path \<Rightarrow> node option" where
  "stat w p = walk (nodes w) [] p"

definition file_bytes :: "world \<Rightarrow> path \<Rightarrow> byte list option" where
  "file_bytes w p = (case stat w p of Some (File _ bs) \<Rightarrow> Some bs | _ \<Rightarrow> None)"

subsection \<open>\<^verbatim>\<open>open\<close>, \<^verbatim>\<open>write\<close>, \<^verbatim>\<open>close\<close>, \<^verbatim>\<open>print\<close>\<close>

definition fresh_fd :: "(nat \<times> handle) list \<Rightarrow> nat" where
  "fresh_fd hs = Suc (foldr max (map fst hs) 0)"

definition allocate :: "path \<Rightarrow> world \<Rightarrow> nat \<times> world" where
  "allocate p w =
     (let fd = fresh_fd (open_files w)
      in (fd, w\<lparr>open_files := (fd, \<lparr>h_path = p, pending = []\<rparr>) # open_files w\<rparr>))"

text \<open>
  \<^verbatim>\<open>open(name, 'w', encoding='utf-8')\<close>. Mode \<^verbatim>\<open>'w'\<close> truncates an existing regular file as
  it opens it and creates a missing one in its directory; it never creates a directory.
  The empty name and the root are refused. Every failure is an \<^verbatim>\<open>OSError\<close> and leaves
  the world as it was.
\<close>

definition py_open :: "string \<Rightarrow> world \<Rightarrow> (error + nat) \<times> world" where
  "py_open name w =
     (let p = resolve w name in
      if name = [] then (Inl (OSError FileNotFoundError), w)
      else if p = [] then
        (Inl (OSError (if os w = Windows then PermissionError else IsADirectoryError)), w)
      else case stat w p of
        Some (Dir _) \<Rightarrow>
          (Inl (OSError (if os w = Windows then PermissionError else IsADirectoryError)), w)
      | Some (File wr old) \<Rightarrow>
          if wr then
            (case allocate p (w\<lparr>nodes := (nodes w)(p \<mapsto> File wr []),
                                free_space := free_space w + length old\<rparr>)
             of (fd, w') \<Rightarrow> (Inr fd, w'))
          else (Inl (OSError PermissionError), w)
      | None \<Rightarrow>
          (case stat w (parent p) of
             None \<Rightarrow> (Inl (OSError FileNotFoundError), w)
           | Some (File _ _) \<Rightarrow>
               (Inl (OSError (if os w = Windows then FileNotFoundError
                              else NotADirectoryError)), w)
           | Some (Dir wr) \<Rightarrow>
               if wr then
                 (case allocate p (w\<lparr>nodes := (nodes w)(p \<mapsto> File True [])\<rparr>)
                  of (fd, w') \<Rightarrow> (Inr fd, w'))
               else (Inl (OSError PermissionError), w)))"

text \<open>
  \<^verbatim>\<open>f.write(s)\<close>: the text layer translates the newlines, encodes the whole string and
  hands the bytes to the buffer; it returns the number of characters of \<open>s\<close>. A string
  that cannot be encoded raises before any byte is buffered. Writing to a closed file
  is a \<^verbatim>\<open>ValueError\<close>.
\<close>

definition f_write :: "nat \<Rightarrow> ustr \<Rightarrow> world \<Rightarrow> (error + nat) \<times> world" where
  "f_write fd s w =
     (case map_of (open_files w) fd of
        None \<Rightarrow> (Inl ValueError, w)
      | Some h \<Rightarrow>
          (case utf8_encode (translate_newlines (linesep (os w)) s) of
             None \<Rightarrow> (Inl UnicodeEncodeError, w)
           | Some bs \<Rightarrow>
               (Inr (length s),
                w\<lparr>open_files :=
                    map (\<lambda>(k, h'). if k = fd then (k, h'\<lparr>pending := pending h' @ bs\<rparr>)
                                   else (k, h'))
                        (open_files w)\<rparr>)))"

text \<open>
  \<^verbatim>\<open>f.close()\<close>: the pending bytes go to the file as far as the device has room, and the
  handle is released whether or not they all fit; bytes that do not fit raise \<^verbatim>\<open>OSError\<close>
  (no space left) and the bytes that did fit stay in the file. Closing a closed file
  does nothing.
\<close>

definition f_close :: "nat \<Rightarrow> world \<Rightarrow> (error + unit) \<times> world" where
  "f_close fd w =
     (case map_of (open_files w) fd of
        None \<Rightarrow> (Inr (), w)
      | Some h \<Rightarrow>
          (let released = filter (\<lambda>(k, h'). k \<noteq> fd) (open_files w);
               k = min (length (pending h)) (free_space w)
           in case nodes w (h_path h) of
                Some (File wr old) \<Rightarrow>
                  (if k < length (pending h) then Inl (OSError NoSpaceError) else Inr (),
                   w\<lparr>nodes := (nodes w)(h_path h \<mapsto> File wr (old @ take k (pending h))),
                     free_space := free_space w - k,
                     open_files := released\<rparr>)
              | _ \<Rightarrow>
                  (if pending h = [] then Inr () else Inl (OSError FileNotFoundError),
                   w\<lparr>open_files := released\<rparr>)))"

text \<open>\<^verbatim>\<open>str(n)\<close> for a length, and the inverse reading of a decimal numeral.\<close>

fun str_nat :: "nat \<Rightarrow> ustr" where
  "str_nat n = (if n < 10 then [0x30 + n] else str_nat (n div 10) @ [0x30 + n mod 10])"

declare str_nat.simps [simp del]


datatype py_value = PyStr ustr | PyInt nat

fun py_str :: "py_value \<Rightarrow> ustr" where
  "py_str (PyStr s) = s"
| "py_str (PyInt n) = str_nat n"

fun join_args :: "py_value list \<Rightarrow> ustr" where
  "join_args [] = []"
| "join_args [v] = py_str v"
| "join_args (v # vs) = py_str v @ [0x20] @ join_args vs"

text \<open>\<^verbatim>\<open>print(*args)\<close>: the arguments separated by a space, then a newline.\<close>

definition py_print :: "py_value list \<Rightarrow> world \<Rightarrow> (error + unit) \<times> world" where
  "py_print args w = (Inr (), w\<lparr>stdout := stdout w @ join_args args @ [0x0A]\<rparr>)"

section \<open>The script\<close>

text \<open>
  The body of the script, with its two literals as parameters. The \<^verbatim>\<open>with\<close> statement
  closes the file when the block is left, by its end or by an exception; an exception of
  \<^verbatim>\<open>close\<close> itself takes the place of the one that was passing. \<^verbatim>\<open>print\<close> is reached
  only when nothing was raised.
\<close>

definition write_instructions :: "ustr \<Rightarrow> string \<Rightarrow> world \<Rightarrow> (error + unit) \<times> world" where
  "write_instructions payload dest w =
     (case py_open dest w of
        (Inl e, w1) \<Rightarrow> (Inl e, w1)
      | (Inr f, w1) \<Rightarrow>
          (case f_write f payload w1 of
             (Inl e, w2) \<Rightarrow>
               (case f_close f w2 of
                  (Inl e', w3) \<Rightarrow> (Inl e', w3)
                | (Inr _, w3) \<Rightarrow> (Inl e, w3))
           | (Inr _, w2) \<Rightarrow>
               (case f_close f w2 of
                  (Inl e', w3) \<Rightarrow> (Inl e', w3)
                | (Inr _, w3) \<Rightarrow>
                    py_print [PyStr (codepoints ''done''), PyInt (length payload)] w3)))"

text \<open>The literals of the script. The path is a raw string: each of its backslashes
  is a character of the path.\<close>

definition content :: ustr where
  "content =
   codepoints ''# Copilot Instructions '' @ [0x2014] @ codepoints '' forgekit-storybook-mcp'' @ [0x0A] @
   [0x0A] @
   codepoints ''## Project Overview'' @ [0x0A] @
   [0x0A] @
   codepoints ''**MCP (Model Context Protocol) server** that auto-generates Storybook stories, tests, and MDX docs for React component libraries. Published to npm as '' @ [0x5C] @ [0xC] @ codepoints ''orgekit-storybook-mcp'' @ [0x5C] @ codepoints '', runs as a CLI via stdio transport. It is **not** a React app'' @ [0x2014] @ codepoints ''it analyzes and generates files in consumer projects. Requires **Node '' @ [0x2265] @ codepoints '' 20** and targets **Storybook 10+**.'' @ [0x0A] @
   [0x0A] @
   codepoints ''## Architecture'' @ [0x0A] @
   [0x0A] @
   [0x5C] @ codepoints ''src/'' @ [0x0A] @
   codepoints ''  cli.ts              '' @ [0x2192] @ codepoints '' Entry: loads .env/.env.local, resolves config, runs preflight + init sync, starts MCP server'' @ [0x0A] @
   codepoints ''  index.ts            '' @ [0x2192] @ codepoints '' MCP server: registers 15 tools via @modelcontextprotocol/sdk request handlers'' @ [0x0A] @
   codepoints ''  tools.ts            '' @ [0x2192] @ codepoints '' 15 tool functions: listComponents, analyzeComponent, generateStory, updateStory,'' @ [0x0A] @
   codepoints ''                         validateStory, getStoryTemplate, listTemplates, getComponentCoverage, suggestStories,'' @ [0x0A] @
   codepoints ''                         syncAll, syncComponent, generateTest, generateDocs, checkHealth, generateCodeConnect'' @ [0x0A] @
   codepoints ''  types.ts            '' @ [0x2192] @ codepoints '' All shared TypeScript interfaces + DEFAULT_CONFIG'' @ [0x0A] @
   codepoints ''  utils/'' @ [0x0A] @
   codepoints ''    scanner.ts          '' @ [0x2192] @ codepoints '' Component discovery (fast-glob) + prop/dependency extraction via regex'' @ [0x0A] @
   codepoints ''    generator.ts        '' @ [0x2192] @ codepoints '' Story file generation (framework-aware: Chakra/shadcn/RN/etc.)'' @ [0x0A] @
   codepoints ''    initializer.ts      '' @ [0x2192] @ codepoints '' Startup sync engine: MD5 hash diff via .storybook-mcp-cache.json; file watcher'' @ [0x0A] @
   codepoints ''    license.ts          '' @ [0x2192] @ codepoints '' Polar license validation, 24h file cache, feature gating'' @ [0x0A] @
   codepoints ''    setup.ts            '' @ [0x2192] @ codepoints '' Storybook bootstrapper: .storybook/ config, Nx monorepo detection'' @ [0x0A] @
   codepoints ''    templates.ts        '' @ [0x2192] @ codepoints '' 8 built-in story templates (basic, with-controls, with-msw, form, etc.)'' @ [0x0A] @
   codepoints ''    validator.ts        '' @ [0x2192] @ codepoints '' Story validator: 8 rule categories, 0-100 score'' @ [0x0A] @
   codepoints ''    test-generator.ts   '' @ [0x2192] @ codepoints '' Generates Playwright or Vitest test files'' @ [0x0A] @
   codepoints ''    docs-generator.ts   '' @ [0x2192] @ codepoints '' Generates MDX documentation files'' @ [0x0A] @
   codepoints ''    code-connect-generator.ts '' @ [0x2192] @ codepoints '' Generates @figma/code-connect .figma.tsx files'' @ [0x0A] @
   codepoints ''    story-merger.ts     '' @ [0x2192] @ codepoints '' Pure functions: merges regenerated templates with user-added story blocks'' @ [0x0A] @
   codepoints ''    story-history.ts    '' @ [0x2192] @ codepoints '' Writes .forgekit/story-history.json (max 10 versions per story)'' @ [0x0A] @
   codepoints ''    preflight.ts        '' @ [0x2192] @ codepoints '' Storybook 10 compatibility checks before server starts'' @ [0x0A] @
   codepoints ''    errors.ts           '' @ [0x2192] @ codepoints '' StorybookMCPError class + ErrorCode enum (typed error codes)'' @ [0x0A] @
   codepoints ''    constants.ts        '' @ [0x2192] @ codepoints '' Single source of truth for all hardcoded values'' @ [0x0A] @
   [0x5C]"

definition destination :: string where
  "destination =
   ''d:'' @ [CHR 0x5C] @ [CHR 0x5C] @ ''documents-from-c'' @ [CHR 0x5C] @ [CHR 0x5C] @ ''GitHub'' @ [CHR 0x5C] @ [CHR 0x5C] @ ''storybook-mcp-v2'' @ [CHR 0x5C] @ [CHR 0x5C] @ ''.github'' @ [CHR 0x5C] @ [CHR 0x5C] @ ''copilot-instructions.md''"

definition main :: "world \<Rightarrow> (error + unit) \<times> world" where
  "main w = write_instructions content destination w"


section \<open>Vocabulary of the properties\<close>

text \<open>
  A destination is valid in a world when \<^verbatim>\<open>open\<close> can write there: it names either a
  writable regular file, or nothing yet inside an existing writable directory.
\<close>

definition valid_destination :: "world \<Rightarrow> string \<Rightarrow> bool" where
  "valid_destination w d =
     (d \<noteq> [] \<and> resolve w d \<noteq> [] \<and>
      (case stat w (resolve w d) of
         Some (File wr _) \<Rightarrow> wr
       | Some (Dir _) \<Rightarrow> False
       | None \<Rightarrow> (case stat w (parent (resolve w d)) of Some (Dir wr) \<Rightarrow> wr | _ \<Rightarrow> False)))"

text \<open>The room the device has for the file at \<open>p\<close> once that file is truncated.\<close>

definition room :: "world \<Rightarrow> path \<Rightarrow> nat" where
  "room w p = free_space w + (case stat w p of Some (File _ old) \<Rightarrow> length old | _ \<Rightarrow> 0)"

text \<open>The world in which the file at \<open>p\<close> has been replaced by one holding \<open>c\<close>.\<close>

definition written :: "world \<Rightarrow> path \<Rightarrow> byte list \<Rightarrow> world" where
  "written w p c =
     w\<lparr>nodes := (nodes w)(p \<mapsto> File True c), free_space := room w p - length c\<rparr>"

text \<open>The line that \<^verbatim>\<open>print('done', len(payload))\<close> sends to standard output.\<close>

definition report :: "ustr \<Rightarrow> ustr" where
  "report payload = codepoints ''done'' @ [0x20] @ str_nat (length payload) @ [0x0A]"

text \<open>The bytes that reach the file of a valid destination: none when the payload cannot
  be encoded, otherwise as much of its encoding as the device has room for.\<close>

definition landed :: "world \<Rightarrow> string \<Rightarrow> ustr \<Rightarrow> byte list" where
  "landed w d p =
     (case utf8_encode (translate_newlines (linesep (os w)) p) of
        None \<Rightarrow> []
      | Some bs \<Rightarrow> take (room w (resolve w d)) bs)"

text \<open>Machines to run the script on: a POSIX one with an empty root directory, a POSIX
  one working in a directory \<^verbatim>\<open>/home\<close>, and a Windows one with the directories of the
  script's path on drive \<^verbatim>\<open>d:\<close>.\<close>

definition posix_world :: world where
  "posix_world =
     \<lparr>os = Posix, cwd = [], nodes = [[] \<mapsto> Dir True], free_space = 20000,
      open_files = [], stdout = []\<rparr>"

definition posix_home_world :: world where
  "posix_home_world =
     \<lparr>os = Posix, cwd = [''home''], nodes = [[] \<mapsto> Dir True, [''home''] \<mapsto> Dir True],
      free_space = 20000, open_files = [], stdout = []\<rparr>"

definition windows_world :: world where
  "windows_world =
     \<lparr>os = Windows, cwd = [''c:''],
      nodes = [[] \<mapsto> Dir False, [''c:''] \<mapsto> Dir True, [''d:''] \<mapsto> Dir True,
               [''d:'', ''documents-from-c''] \<mapsto> Dir True,
               [''d:'', ''documents-from-c'', ''GitHub''] \<mapsto> Dir True,
               [''d:'', ''documents-from-c'', ''GitHub'', ''storybook-mcp-v2''] \<mapsto> Dir True,
               [''d:'', ''documents-from-c'', ''GitHub'', ''storybook-mcp-v2'', ''.github'']
                 \<mapsto> Dir True],
      free_space = 20000, open_files = [], stdout = []\<rparr>"

text \<open>A world in which a writable file holding \<open>bs\<close> has been put at \<open>p\<close>.\<close>

definition with_file :: "world \<Rightarrow> path \<Rightarrow> byte list \<Rightarrow> world" where
  "with_file w p bs = w\<lparr>nodes := (nodes w)(p \<mapsto> File True bs)\<rparr>"

text \<open>The bytes of the ASCII text \<^verbatim>\<open>OLD\<close>, the path string \<^verbatim>\<open>d:\out.txt\<close>, and the
  components of the script's destination on Windows.\<close>

definition old_bytes :: "byte list" where
  "old_bytes = [0x4F, 0x4C, 0x44]"

definition windows_out :: string where
  "windows_out = ''d:'' @ [CHR 0x5C] @ ''out.txt''"

definition windows_destination :: path where
  "windows_destination =
     [''d:'', ''documents-from-c'', ''GitHub'', ''storybook-mcp-v2'', ''.github'',
      ''copilot-instructions.md'']"

section \<open>The codec round trip\<close>

lemma unat_byte_of: "n < 256 \<Longrightarrow> unat (byte_of n) = n"
  by (simp add: byte_of_def unat_of_nat)

lemma decode1:
  "c < 0x80 \<Longrightarrow> utf8_decode (byte_of c # rest) = map_option ((#) c) (utf8_decode rest)"
  by (simp add: unat_byte_of)

lemma decode2:
  assumes "2 \<le> q" "q < 32" "r < 64"
  shows "utf8_decode (byte_of (0xC0 + q) # byte_of (0x80 + r) # rest)
         = map_option ((#) (q * 64 + r)) (utf8_decode rest)"
proof -
  have a: "unat (byte_of (0xC0 + q)) = 0xC0 + q" using assms by (intro unat_byte_of) simp
  have b: "unat (byte_of (0x80 + r)) = 0x80 + r" using assms by (intro unat_byte_of) simp
  show ?thesis using assms by (simp add: a b is_cont_def cont_bits_def)
qed

lemma decode3:
  assumes "q < 16" "r1 < 64" "r2 < 64" "0x800 \<le> q * 4096 + r1 * 64 + r2"
    "\<not> is_surrogate (q * 4096 + r1 * 64 + r2)"
  shows "utf8_decode (byte_of (0xE0 + q) # byte_of (0x80 + r1) # byte_of (0x80 + r2) # rest)
         = map_option ((#) (q * 4096 + r1 * 64 + r2)) (utf8_decode rest)"
proof -
  have a: "unat (byte_of (0xE0 + q)) = 0xE0 + q" using assms by (intro unat_byte_of) simp
  have b: "unat (byte_of (0x80 + r1)) = 0x80 + r1" using assms by (intro unat_byte_of) simp
  have c: "unat (byte_of (0x80 + r2)) = 0x80 + r2" using assms by (intro unat_byte_of) simp
  show ?thesis using assms by (simp add: a b c is_cont_def cont_bits_def)
qed

lemma decode4:
  assumes "q < 5" "r1 < 64" "r2 < 64" "r3 < 64"
    "0x10000 \<le> q * 262144 + r1 * 4096 + r2 * 64 + r3"
    "q * 262144 + r1 * 4096 + r2 * 64 + r3 < 0x110000"
  shows "utf8_decode (byte_of (0xF0 + q) # byte_of (0x80 + r1) # byte_of (0x80 + r2)
                      # byte_of (0x80 + r3) # rest)
         = map_option ((#) (q * 262144 + r1 * 4096 + r2 * 64 + r3)) (utf8_decode rest)"
proof -
  have a: "unat (byte_of (0xF0 + q)) = 0xF0 + q" using assms by (intro unat_byte_of) simp
  have b: "unat (byte_of (0x80 + r1)) = 0x80 + r1" using assms by (intro unat_byte_of) simp
  have c: "unat (byte_of (0x80 + r2)) = 0x80 + r2" using assms by (intro unat_byte_of) simp
  have d: "unat (byte_of (0x80 + r3)) = 0x80 + r3" using assms by (intro unat_byte_of) simp
  show ?thesis using assms by (simp add: a b c d is_cont_def cont_bits_def)
qed


lemma dm: "(x::nat) div 64 * (64 * k) + x mod 64 * k = x * k"
proof -
  have "(x div 64 * 64 + x mod 64) * k = x * k" by simp
  then show ?thesis by (simp only: add_mult_distrib mult.assoc)
qed

lemma split3: "(c::nat) div 4096 * 4096 + c div 64 mod 64 * 64 + c mod 64 = c"
proof -
  have a: "c div 4096 = c div 64 div 64" by (simp add: div_mult2_eq)
  have b: "c div 64 div 64 * 4096 + c div 64 mod 64 * 64 = c div 64 * 64"
    using dm [of "c div 64" 64] by simp
  have c: "c div 64 * 64 + c mod 64 = c" by simp
  show ?thesis unfolding a using b c by linarith
qed

lemma split4:
  "(c::nat) div 262144 * 262144 + c div 4096 mod 64 * 4096 + c div 64 mod 64 * 64 + c mod 64 = c"
proof -
  have a: "c div 262144 = c div 4096 div 64" by (simp add: div_mult2_eq)
  have b: "c div 4096 div 64 * 262144 + c div 4096 mod 64 * 4096 = c div 4096 * 4096"
    using dm [of "c div 4096" 4096] by simp
  show ?thesis unfolding a using b split3 [of c] by linarith
qed

lemma decode_encode_char:
  assumes "utf8_encode_char c = Some bs"
  shows "utf8_decode (bs @ rest) = map_option ((#) c) (utf8_decode rest)"
proof -
  consider (a) "c < 0x80" | (b) "0x80 \<le> c" "c < 0x800"
    | (c) "0x800 \<le> c" "c < 0x10000" "\<not> is_surrogate c"
    | (d) "0x10000 \<le> c" "c < 0x110000"
    using assms by (auto simp: utf8_encode_char_def split: if_splits)
  then show ?thesis
  proof cases
    case a
    with assms have "bs = [byte_of c]" by (simp add: utf8_encode_char_def)
    then show ?thesis using a by (simp add: decode1 del: utf8_decode.simps)
  next
    case b
    have "utf8_decode (byte_of (0xC0 + c div 64) # byte_of (0x80 + c mod 64) # rest)
          = map_option ((#) (c div 64 * 64 + c mod 64)) (utf8_decode rest)"
      using b by (intro decode2) simp_all
    moreover have "bs = [byte_of (0xC0 + c div 64), byte_of (0x80 + c mod 64)]"
      using assms b by (simp add: utf8_encode_char_def)
    ultimately show ?thesis by (simp del: utf8_decode.simps)
  next
    case c
    have "utf8_decode (byte_of (0xE0 + c div 4096) # byte_of (0x80 + c div 64 mod 64)
                       # byte_of (0x80 + c mod 64) # rest)
          = map_option ((#) (c div 4096 * 4096 + c div 64 mod 64 * 64 + c mod 64))
              (utf8_decode rest)"
      using c by (intro decode3) (simp_all add: split3)
    moreover have "bs = [byte_of (0xE0 + c div 4096), byte_of (0x80 + c div 64 mod 64),
                         byte_of (0x80 + c mod 64)]"
      using assms c by (simp add: utf8_encode_char_def)
    ultimately show ?thesis by (simp add: split3 del: utf8_decode.simps)
  next
    case d
    have s: "\<not> is_surrogate c" using d by (simp add: is_surrogate_def)
    have "utf8_decode (byte_of (0xF0 + c div 262144) # byte_of (0x80 + c div 4096 mod 64)
                       # byte_of (0x80 + c div 64 mod 64) # byte_of (0x80 + c mod 64) # rest)
          = map_option ((#) (c div 262144 * 262144 + c div 4096 mod 64 * 4096
                             + c div 64 mod 64 * 64 + c mod 64))
              (utf8_decode rest)"
      using d by (intro decode4) (simp_all add: split4)
    moreover have "bs = [byte_of (0xF0 + c div 262144), byte_of (0x80 + c div 4096 mod 64),
                         byte_of (0x80 + c div 64 mod 64), byte_of (0x80 + c mod 64)]"
      using assms d s by (simp add: utf8_encode_char_def)
    ultimately show ?thesis by (simp add: split4 del: utf8_decode.simps)
  qed
qed

lemma decode_encode: "utf8_encode s = Some bs \<Longrightarrow> utf8_decode bs = Some s"
proof (induction s arbitrary: bs)
  case Nil
  then show ?case by simp
next
  case (Cons c cs)
  from Cons.prems obtain b r where b: "utf8_encode_char c = Some b"
    and r: "utf8_encode cs = Some r" and bs: "bs = b @ r"
    by (auto split: option.splits)
  from Cons.IH [OF r] decode_encode_char [OF b, of r] show ?case
    by (simp add: bs del: utf8_decode.simps)
qed

lemma utf8_encode_char_None: "utf8_encode_char c = None \<longleftrightarrow> \<not> encodable c"
  by (auto simp: utf8_encode_char_def encodable_def is_surrogate_def)

lemma utf8_encode_char_Some: "utf8_encode_char c = Some bs \<Longrightarrow> encodable c"
  using utf8_encode_char_None [of c] by auto

lemma utf8_encode_None: "utf8_encode s = None \<longleftrightarrow> (\<exists>c\<in>set s. \<not> encodable c)"
  by (induction s)
     (auto simp: utf8_encode_char_None split: option.splits dest: utf8_encode_char_Some)

lemma set_translate_newlines:
  "set (translate_newlines sep s) = (set s - {0x0A}) \<union> (if 0x0A \<in> set s then set sep else {})"
  by (induction s) (auto simp: translate_newlines_def)

lemma translate_newlines_id: "0x0A \<notin> set s \<Longrightarrow> translate_newlines sep s = s"
  by (induction s) (auto simp: translate_newlines_def)

lemma translate_newlines_lf: "translate_newlines [0x0A] s = s"
  by (induction s) (auto simp: translate_newlines_def)

lemma translate_newlines_posix: "translate_newlines (linesep Posix) s = s"
  by (simp add: translate_newlines_lf)

lemma universal_translate:
  "0x0D \<notin> set s \<Longrightarrow> universal_newlines (translate_newlines (linesep pf) s) = s"
proof (induction s)
  case Nil
  then show ?case by (simp add: translate_newlines_def)
next
  case (Cons c cs)
  then have ih: "universal_newlines (translate_newlines (linesep pf) cs) = cs" by simp
  have t: "translate_newlines (linesep pf) (c # cs)
           = (if c = 0x0A then linesep pf else [c]) @ translate_newlines (linesep pf) cs"
    by (simp add: translate_newlines_def)
  show ?case
  proof (cases "c = 0x0A")
    case True
    then show ?thesis using ih t by (cases pf) simp_all
  next
    case False
    with Cons.prems have "c \<noteq> 0x0D" by auto
    with False show ?thesis using ih by (simp add: t)
  qed
qed

lemma encodable_translate:
  "(\<exists>c\<in>set (translate_newlines (linesep pf) s). \<not> encodable c) \<longleftrightarrow> (\<exists>c\<in>set s. \<not> encodable c)"
proof -
  have "encodable 0x0A" "encodable 0x0D" by (simp_all add: encodable_def is_surrogate_def)
  then show ?thesis
    by (cases pf) (auto simp: set_translate_newlines split: if_splits)
qed

section \<open>Facts about the file system and the file table\<close>

lemma fresh_fd_gt: "(k, h) \<in> set hs \<Longrightarrow> k < fresh_fd hs"
  by (induction hs) (auto simp: fresh_fd_def less_Suc_eq_le le_max_iff_disj)

lemma fresh_fd_filter: "filter (\<lambda>(k, h). k \<noteq> fresh_fd hs) hs = hs"
proof -
  have "\<forall>x\<in>set hs. (case x of (k, h) \<Rightarrow> k \<noteq> fresh_fd hs)"
    using fresh_fd_gt [of _ _ hs] by fastforce
  then show ?thesis by (simp only: filter_id_conv)
qed

lemma walk_snoc:
  "walk ns cur (xs @ [x]) = (if is_dir (walk ns cur xs) then ns (cur @ xs @ [x]) else None)"
  by (induction xs arbitrary: cur) auto

lemma walk_Some: "walk ns cur p = Some n \<Longrightarrow> ns (cur @ p) = Some n"
proof (induction p arbitrary: cur)
  case Nil
  then show ?case by simp
next
  case (Cons c cs)
  then have "walk ns (cur @ [c]) cs = Some n" by (simp split: if_splits)
  from Cons.IH [OF this] show ?case by simp
qed

lemma stat_step:
  "p \<noteq> [] \<Longrightarrow> stat w p = (if is_dir (stat w (parent p)) then nodes w p else None)"
  using walk_snoc [of "nodes w" "[]" "butlast p" "last p"]
  by (simp add: stat_def parent_def)

lemma stat_Some: "stat w p = Some n \<Longrightarrow> nodes w p = Some n"
  using walk_Some [of "nodes w" "[]" p n] by (simp add: stat_def)

lemma walk_frame:
  assumes "\<not> is_dir (ns p)" "\<not> is_dir v"
  shows "cur @ q \<noteq> p \<Longrightarrow> walk (ns(p := v)) cur q = walk ns cur q"
proof (induction q arbitrary: cur)
  case Nil
  then show ?case by simp
next
  case (Cons c cs)
  have "is_dir ((ns(p := v)) cur) = is_dir (ns cur)" using assms by simp
  moreover have "walk (ns(p := v)) (cur @ [c]) cs = walk ns (cur @ [c]) cs"
    using Cons.prems by (intro Cons.IH) simp
  ultimately show ?case by (simp del: fun_upd_apply)
qed

lemma valid_not_dir: "valid_destination w d \<Longrightarrow> \<not> is_dir (nodes w (resolve w d))"
proof -
  assume v: "valid_destination w d"
  let ?p = "resolve w d"
  from v have ne: "?p \<noteq> []" by (simp add: valid_destination_def)
  show ?thesis
  proof (cases "stat w ?p")
    case None
    with v have "is_dir (stat w (parent ?p))"
      by (auto simp: valid_destination_def split: option.splits node.splits)
    with None stat_step [OF ne, of w] show ?thesis by simp
  next
    case (Some n)
    with v obtain wr bs where "n = File wr bs"
      by (cases n) (auto simp: valid_destination_def)
    with Some stat_Some [of w ?p n] show ?thesis by simp
  qed
qed

lemma valid_parent_dir: "valid_destination w d \<Longrightarrow> is_dir (stat w (parent (resolve w d)))"
proof -
  assume v: "valid_destination w d"
  let ?p = "resolve w d"
  from v have ne: "?p \<noteq> []" by (simp add: valid_destination_def)
  show ?thesis
  proof (cases "stat w ?p")
    case None
    with v show ?thesis
      by (auto simp: valid_destination_def split: option.splits node.splits)
  next
    case (Some n)
    with stat_step [OF ne, of w] show ?thesis by (auto split: if_splits)
  qed
qed

lemma fresh_fd_map:
  "map (\<lambda>(k, h). if k = fresh_fd hs then (k, g h) else (k, h)) hs = hs"
proof (rule map_idI)
  fix x assume a: "x \<in> set hs"
  obtain k h where x: "x = (k, h)" by (cases x)
  with a have "k < fresh_fd hs" by (simp add: fresh_fd_gt)
  then show "(case x of (k, h) \<Rightarrow> if k = fresh_fd hs then (k, g h) else (k, h)) = x"
    by (simp add: x)
qed

lemma py_open_invalid:
  "\<not> valid_destination w d \<Longrightarrow> \<exists>oe. py_open d w = (Inl (OSError oe), w)"
  by (auto simp: py_open_def valid_destination_def Let_def split: option.splits node.splits)

lemma py_open_valid:
  "valid_destination w d \<Longrightarrow>
   py_open d w =
     (Inr (fresh_fd (open_files w)),
      w\<lparr>nodes := (nodes w)(resolve w d \<mapsto> File True []),
        free_space := room w (resolve w d),
        open_files := (fresh_fd (open_files w), \<lparr>h_path = resolve w d, pending = []\<rparr>)
                      # open_files w\<rparr>)"
  by (auto simp: py_open_def valid_destination_def room_def allocate_def Let_def
           split: option.splits node.splits)

lemma write_instructions_invalid:
  "\<not> valid_destination w d \<Longrightarrow> \<exists>oe. write_instructions p d w = (Inl (OSError oe), w)"
  using py_open_invalid [of w d] by (auto simp: write_instructions_def)

lemma write_instructions_valid:
  assumes "valid_destination w d"
  shows "write_instructions p d w =
     (case utf8_encode (translate_newlines (linesep (os w)) p) of
        None \<Rightarrow> (Inl UnicodeEncodeError, written w (resolve w d) [])
      | Some bs \<Rightarrow>
          if room w (resolve w d) < length bs
          then (Inl (OSError NoSpaceError),
                written w (resolve w d) (take (room w (resolve w d)) bs))
          else (Inr (), (written w (resolve w d) bs)\<lparr>stdout := stdout w @ report p\<rparr>))"
  by (simp add: write_instructions_def py_open_valid [OF assms] f_write_def f_close_def
        fresh_fd_filter fresh_fd_map written_def report_def py_print_def Let_def min_def
      split: option.splits)


lemma stat_cong: "nodes w' = nodes w \<Longrightarrow> stat w' p = stat w p"
  by (simp add: stat_def)

lemma stat_other:
  assumes "valid_destination w d" "nodes w' = (nodes w)(resolve w d \<mapsto> File True c)"
    "q \<noteq> resolve w d"
  shows "stat w' q = stat w q"
  using walk_frame [of "nodes w" "resolve w d" "Some (File True c)" "[]" q]
    valid_not_dir [OF assms(1)] assms(2,3)
  by (simp add: stat_def)

lemma stat_self:
  assumes "valid_destination w d" "nodes w' = (nodes w)(resolve w d \<mapsto> File True c)"
  shows "stat w' (resolve w d) = Some (File True c)"
proof -
  let ?p = "resolve w d"
  from assms(1) have ne: "?p \<noteq> []" by (simp add: valid_destination_def)
  then have "parent ?p \<noteq> ?p"
    by (metis parent_def length_butlast diff_less length_greater_0_conv less_irrefl zero_less_one)
  then have "stat w' (parent ?p) = stat w (parent ?p)"
    using assms by (intro stat_other)
  with valid_parent_dir [OF assms(1)] stat_step [OF ne, of w'] assms(2)
  show ?thesis by simp
qed



lemma outcome_result:
  assumes "valid_destination w d"
  shows "fst (write_instructions p d w) =
     (case utf8_encode (translate_newlines (linesep (os w)) p) of
        None \<Rightarrow> Inl UnicodeEncodeError
      | Some bs \<Rightarrow> if room w (resolve w d) < length bs then Inl (OSError NoSpaceError)
                   else Inr ())"
  by (simp add: write_instructions_valid [OF assms] split: option.splits)

lemma outcome_world:
  assumes "valid_destination w d"
  shows "nodes (snd (write_instructions p d w))
           = (nodes w)(resolve w d \<mapsto> File True (landed w d p))"
    and "free_space (snd (write_instructions p d w))
           = room w (resolve w d) - length (landed w d p)"
    and "os (snd (write_instructions p d w)) = os w"
    and "cwd (snd (write_instructions p d w)) = cwd w"
  by (simp_all add: write_instructions_valid [OF assms] written_def landed_def
        split: option.splits)

lemma landed_le: "length (landed w d p) \<le> room w (resolve w d)"
  by (simp add: landed_def split: option.splits)

lemma success_cases:
  assumes "fst (write_instructions p d w) = Inr ()"
  obtains bs where "valid_destination w d"
    and "utf8_encode (translate_newlines (linesep (os w)) p) = Some bs"
    and "length bs \<le> room w (resolve w d)"
    and "snd (write_instructions p d w)
         = (written w (resolve w d) bs)\<lparr>stdout := stdout w @ report p\<rparr>"
proof -
  have v: "valid_destination w d"
  proof (rule ccontr)
    assume "\<not> valid_destination w d"
    then obtain oe where "write_instructions p d w = (Inl (OSError oe), w)"
      using write_instructions_invalid by blast
    with assms show False by simp
  qed
  from assms obtain bs where e: "utf8_encode (translate_newlines (linesep (os w)) p) = Some bs"
    and r: "\<not> room w (resolve w d) < length bs"
    by (auto simp: outcome_result [OF v] split: option.splits if_splits)
  from e r have "snd (write_instructions p d w)
         = (written w (resolve w d) bs)\<lparr>stdout := stdout w @ report p\<rparr>"
    by (simp add: write_instructions_valid [OF v])
  with v e r that show thesis by simp
qed

lemma success_file:
  assumes "fst (write_instructions p d w) = Inr ()"
  shows "\<exists>bs. utf8_encode (translate_newlines (linesep (os w)) p) = Some bs
              \<and> stat (snd (write_instructions p d w)) (resolve w d) = Some (File True bs)"
proof -
  from assms obtain bs where v: "valid_destination w d"
    and e: "utf8_encode (translate_newlines (linesep (os w)) p) = Some bs"
    and s: "snd (write_instructions p d w)
            = (written w (resolve w d) bs)\<lparr>stdout := stdout w @ report p\<rparr>"
    by (rule success_cases)
  have "nodes (snd (write_instructions p d w)) = (nodes w)(resolve w d \<mapsto> File True bs)"
    by (simp add: s written_def)
  from stat_self [OF v this] e show ?thesis by simp
qed

lemma valid_after:
  assumes "valid_destination w d" "nodes w' = (nodes w)(resolve w d \<mapsto> File True c)"
    "os w' = os w" "cwd w' = cwd w"
  shows "valid_destination w' d" and "resolve w' d = resolve w d"
    and "room w' (resolve w d) = free_space w' + length c"
proof -
  show r: "resolve w' d = resolve w d" using assms(3,4) by (simp add: resolve_def)
  have s: "stat w' (resolve w d) = Some (File True c)" by (rule stat_self [OF assms(1,2)])
  from assms(1) s r show "valid_destination w' d" by (simp add: valid_destination_def)
  from s show "room w' (resolve w d) = free_space w' + length c" by (simp add: room_def)
qed


lemma length_codepoints: "length (codepoints s) = length s"
  by (simp add: codepoints_def)

lemma encodable_codepoints: "list_all encodable (codepoints s)"
proof -
  have e: "encodable n" if "n < 256" for n
    using that by (simp add: encodable_def is_surrogate_def)
  have "encodable (of_char c)" for c :: char
    by (rule e) (rule nat_of_char_less_256)
  then show ?thesis by (simp add: codepoints_def list_all_iff)
qed

lemma content_encodable: "list_all encodable content"
  by (simp add: content_def encodable_codepoints) (simp add: encodable_def is_surrogate_def)

lemma length_content: "length content = 2345"
  by (simp add: content_def length_codepoints)

lemma utf8_encode_length: "utf8_encode s = Some bs \<Longrightarrow> length bs \<le> 4 * length s"
proof (induction s arbitrary: bs)
  case Nil
  then show ?case by simp
next
  case (Cons c cs)
  from Cons.prems obtain b r where b: "utf8_encode_char c = Some b"
    and r: "utf8_encode cs = Some r" and bs: "bs = b @ r"
    by (auto split: option.splits)
  from b have "length b \<le> 4" by (auto simp: utf8_encode_char_def split: if_splits)
  with Cons.IH [OF r] show ?case by (simp add: bs)
qed

lemma translate_newlines_length:
  "length (translate_newlines (linesep pf) s) \<le> 2 * length s"
  by (induction s) (cases pf; simp add: translate_newlines_def)+

lemma content_encodes:
  "\<exists>bs. utf8_encode (translate_newlines (linesep pf) content) = Some bs \<and> length bs \<le> 18760"
proof -
  have "\<not> (\<exists>c\<in>set content. \<not> encodable c)"
    using content_encodable by (simp add: list_all_iff)
  then have "utf8_encode (translate_newlines (linesep pf) content) \<noteq> None"
    by (simp only: utf8_encode_None encodable_translate not_False_eq_True)
  then obtain bs where e: "utf8_encode (translate_newlines (linesep pf) content) = Some bs"
    by auto
  from utf8_encode_length [OF e] translate_newlines_length [of pf content]
  have "length bs \<le> 18760" by (simp add: length_content)
  with e show ?thesis by simp
qed

lemma main_succeeds:
  assumes "valid_destination w destination" "18760 \<le> room w (resolve w destination)"
  shows "fst (main w) = Inr ()"
proof -
  from content_encodes [of "os w"] obtain bs
    where "utf8_encode (translate_newlines (linesep (os w)) content) = Some bs"
      and "length bs \<le> 18760" by blast
  with assms(2) show ?thesis by (simp add: main_def outcome_result [OF assms(1)])
qed

lemma posix_out_resolve: "resolve posix_world ''/out.txt'' = [''out.txt'']"
  by (simp add: posix_world_def resolve_def is_absolute_def is_sep_def)

lemma posix_out_valid: "valid_destination posix_world ''/out.txt''"
  unfolding valid_destination_def posix_out_resolve
  by (simp add: posix_world_def stat_def parent_def)

lemma posix_out_room: "room posix_world [''out.txt''] = 20000"
  by (simp add: room_def) (simp add: posix_world_def stat_def)

lemma hello_encodes:
  "utf8_encode (translate_newlines [0x0A] (codepoints ''hello world''))
   = Some (map byte_of [0x68, 0x65, 0x6C, 0x6C, 0x6F, 0x20, 0x77, 0x6F, 0x72, 0x6C, 0x64])"
  by (simp add: translate_newlines_lf codepoints_def utf8_encode_char_def)

lemma hello_succeeds:
  "fst (write_instructions (codepoints ''hello world'') ''/out.txt'' posix_world) = Inr ()"
proof -
  have "os posix_world = Posix" by (simp add: posix_world_def)
  then show ?thesis
    by (simp add: outcome_result [OF posix_out_valid] hello_encodes posix_out_resolve
          posix_out_room)
qed

lemma windows_out_resolve: "resolve windows_world windows_out = [''d:'', ''out.txt'']"
  by (simp add: windows_world_def windows_out_def resolve_def is_absolute_def is_sep_def)

lemma windows_destination_resolve:
  "os w = Windows \<Longrightarrow> resolve w destination = windows_destination"
  by (simp add: resolve_def is_absolute_def destination_def is_sep_def windows_destination_def)

lemma run_succeeds:
  assumes "valid_destination w d"
    and "utf8_encode (translate_newlines (linesep (os w)) p) = Some bs"
    and "length bs \<le> room w (resolve w d)"
  shows "fst (write_instructions p d w) = Inr ()"
    and "file_bytes (snd (write_instructions p d w)) (resolve w d) = Some bs"
proof -
  show ok: "fst (write_instructions p d w) = Inr ()"
    using assms(2,3) by (simp add: outcome_result [OF assms(1)])
  from success_file [OF ok] assms(2)
  show "file_bytes (snd (write_instructions p d w)) (resolve w d) = Some bs"
    by (auto simp: file_bytes_def)
qed

lemma success_read_back:
  assumes "fst (write_instructions p d w) = Inr ()"
  shows "\<exists>bs. utf8_encode (translate_newlines (linesep (os w)) p) = Some bs
          \<and> file_bytes (snd (write_instructions p d w)) (resolve w d) = Some bs
          \<and> utf8_decode bs = Some (translate_newlines (linesep (os w)) p)
          \<and> (os w = Posix \<or> 0x0A \<notin> set p \<longrightarrow> utf8_decode bs = Some p)
          \<and> (0x0D \<notin> set p \<longrightarrow> read_text bs = Some p)"
proof -
  from success_file [OF assms] obtain bs
    where e: "utf8_encode (translate_newlines (linesep (os w)) p) = Some bs"
      and s: "stat (snd (write_instructions p d w)) (resolve w d) = Some (File True bs)"
    by blast
  have f: "file_bytes (snd (write_instructions p d w)) (resolve w d) = Some bs"
    using s by (simp add: file_bytes_def)
  have dc: "utf8_decode bs = Some (translate_newlines (linesep (os w)) p)"
    by (rule decode_encode [OF e])
  have a: "translate_newlines (linesep (os w)) p = p" if "os w = Posix \<or> 0x0A \<notin> set p"
    using that translate_newlines_posix [of p] translate_newlines_id [of p "linesep (os w)"]
    by auto
  have b: "read_text bs = Some p" if "0x0D \<notin> set p"
    using that by (simp add: read_text_def dc universal_translate)
  from e f dc a b show ?thesis by auto
qed

lemma with_file_facts:
  assumes "valid_destination w d"
  shows "valid_destination (with_file w (resolve w d) bs) d"
    and "resolve (with_file w (resolve w d) bs) d = resolve w d"
    and "file_bytes (with_file w (resolve w d) bs) (resolve w d) = Some bs"
    and "room (with_file w (resolve w d) bs) (resolve w d) = free_space w + length bs"
proof -
  let ?w' = "with_file w (resolve w d) bs"
  have n: "nodes ?w' = (nodes w)(resolve w d \<mapsto> File True bs)"
    and o: "os ?w' = os w" and c: "cwd ?w' = cwd w" and f: "free_space ?w' = free_space w"
    by (simp_all add: with_file_def)
  from valid_after [OF assms n o c] f
  show "valid_destination ?w' d" and "resolve ?w' d = resolve w d"
    and "room ?w' (resolve w d) = free_space w + length bs"
    by simp_all
  from stat_self [OF assms n] show "file_bytes ?w' (resolve w d) = Some bs"
    by (simp add: file_bytes_def)
qed

lemma windows_out_valid: "valid_destination windows_world windows_out"
  unfolding valid_destination_def windows_out_resolve
  by (simp add: windows_world_def windows_out_def stat_def parent_def)

lemma windows_out_room: "room windows_world [''d:'', ''out.txt''] = 20000"
  by (simp add: room_def) (simp add: windows_world_def stat_def)

lemma windows_os: "os windows_world = Windows"
  by (simp add: windows_world_def)

lemma windows_free: "free_space windows_world = 20000"
  by (simp add: windows_world_def)

lemma posix_os: "os posix_world = Posix"
  by (simp add: posix_world_def)

lemma posix_free: "free_space posix_world = 20000"
  by (simp add: posix_world_def)

lemma windows_destination_valid: "valid_destination windows_world destination"
  unfolding valid_destination_def windows_destination_resolve [OF windows_os]
  by (simp add: windows_world_def windows_destination_def destination_def stat_def parent_def)

lemma windows_destination_room: "room windows_world windows_destination = 20000"
  by (simp add: room_def) (simp add: windows_world_def windows_destination_def stat_def)

lemma device_full_is_an_error:
  "fst (write_instructions (codepoints ''hello world'') ''/out.txt''
          (posix_world\<lparr>free_space := 3\<rparr>)) = Inl (OSError NoSpaceError)
   \<and> file_bytes (snd (write_instructions (codepoints ''hello world'') ''/out.txt''
                       (posix_world\<lparr>free_space := 3\<rparr>))) [''out.txt'']
       = Some (map byte_of [0x68, 0x65, 0x6C])"
proof -
  let ?w = "posix_world\<lparr>free_space := 3\<rparr>"
  have r: "resolve ?w ''/out.txt'' = [''out.txt'']"
    by (simp add: posix_world_def resolve_def is_absolute_def is_sep_def)
  have v: "valid_destination ?w ''/out.txt''"
    unfolding valid_destination_def r
    by (simp add: posix_world_def stat_def parent_def)
  have m: "room ?w [''out.txt''] = 3"
    by (simp add: room_def) (simp add: posix_world_def stat_def)
  have o: "os ?w = Posix" by (simp add: posix_world_def)
  have l: "landed ?w ''/out.txt'' (codepoints ''hello world'') = map byte_of [0x68, 0x65, 0x6C]"
    by (simp add: landed_def o hello_encodes r m)
  have "stat (snd (write_instructions (codepoints ''hello world'') ''/out.txt'' ?w))
          (resolve ?w ''/out.txt'') = Some (File True (map byte_of [0x68, 0x65, 0x6C]))"
    using stat_self [OF v outcome_world(1) [OF v, of "codepoints ''hello world''"]]
    by (simp only: l)
  then show ?thesis
    by (simp add: outcome_result [OF v] o hello_encodes r m file_bytes_def)
qed

lemma posix_destination_resolve:
  "os w = Posix \<Longrightarrow> resolve w destination = cwd w @ [destination]"
  by (simp add: resolve_def is_absolute_def destination_def is_sep_def)

lemma destination_not_empty: "destination \<noteq> []"
  by (simp add: destination_def)

lemma posix_destination_valid: "valid_destination posix_world destination"
  unfolding valid_destination_def posix_destination_resolve [OF posix_os]
  by (simp add: destination_not_empty) (simp add: posix_world_def stat_def parent_def)

lemma posix_destination_room:
  "room posix_world (resolve posix_world destination) = 20000"
  unfolding posix_destination_resolve [OF posix_os]
  by (simp add: room_def) (simp add: posix_world_def stat_def)

lemma posix_home_os: "os posix_home_world = Posix"
  by (simp add: posix_home_world_def)

lemma posix_home_destination_valid: "valid_destination posix_home_world destination"
  unfolding valid_destination_def posix_destination_resolve [OF posix_home_os]
  by (simp add: destination_not_empty) (simp add: posix_home_world_def stat_def parent_def)

lemma posix_home_destination_room:
  "room posix_home_world (resolve posix_home_world destination) = 20000"
  unfolding posix_destination_resolve [OF posix_home_os]
  by (simp add: room_def) (simp add: posix_home_world_def stat_def)

lemma translate_crlf_le: "length s \<le> length (translate_newlines [0x0D, 0x0A] s)"
  by (induction s) (auto simp: translate_newlines_def)

lemma translate_crlf_longer:
  "0x0A \<in> set s \<Longrightarrow> length s < length (translate_newlines [0x0D, 0x0A] s)"
proof (induction s)
  case Nil
  then show ?case by simp
next
  case (Cons c cs)
  have t: "translate_newlines [0x0D, 0x0A] (c # cs)
           = (if c = 0x0A then [0x0D, 0x0A] else [c]) @ translate_newlines [0x0D, 0x0A] cs"
    by (simp add: translate_newlines_def)
  show ?case
  proof (cases "c = 0x0A")
    case True
    with translate_crlf_le [of cs] t show ?thesis by simp
  next
    case False
    with Cons.prems have "0x0A \<in> set cs" by simp
    from Cons.IH [OF this] False show ?thesis by (simp add: t)
  qed
qed

lemma content_has_newline: "0x0A \<in> set content"
  by (simp add: content_def)

section \<open>The properties of the script\<close>

text \<open>
  C9 (scoped handle release). Whatever the outcome of the script body (the destination
  cannot be opened, the payload cannot be encoded, the device is full, or success), the
  table of open files afterwards is the table before: the handle acquired by \<^verbatim>\<open>open\<close> has
  been released on every exit path.
\<close>

theorem handle_released:
  "open_files (snd (write_instructions p d w)) = open_files w"
proof (cases "valid_destination w d")
  case True
  then show ?thesis
    by (simp add: write_instructions_valid written_def split: option.splits)
next
  case False
  then obtain oe where "write_instructions p d w = (Inl (OSError oe), w)"
    using write_instructions_invalid by blast
  then show ?thesis by simp
qed

text \<open>
  C4 (failure on a missing parent). When nothing exists at the parent of the destination,
  the script body fails with an \<^verbatim>\<open>OSError\<close>, the file-system error of the specification,
  leaves the world as it was, and no file exists at the destination afterwards.
\<close>

theorem missing_parent_fails:
  assumes "stat w (parent (resolve w d)) = None"
  shows "(\<exists>oe. fst (write_instructions p d w) = Inl (OSError oe))
         \<and> snd (write_instructions p d w) = w
         \<and> stat (snd (write_instructions p d w)) (resolve w d) = None"
proof -
  have "\<not> valid_destination w d"
    using valid_parent_dir [of w d] assms by auto
  then obtain oe where r: "write_instructions p d w = (Inl (OSError oe), w)"
    using write_instructions_invalid by blast
  have "stat w (resolve w d) = None"
  proof (cases "resolve w d = []")
    case True
    with assms show ?thesis by (simp add: parent_def)
  next
    case False
    from stat_step [OF False, of w] assms show ?thesis by simp
  qed
  with r show ?thesis by simp
qed

theorem missing_parent_fails_witness:
  "stat posix_world (parent (resolve posix_world ''/no/such/dir/out.txt'')) = None
   \<and> (\<exists>oe. fst (write_instructions [0x78] ''/no/such/dir/out.txt'' posix_world)
            = Inl (OSError oe))
   \<and> snd (write_instructions [0x78] ''/no/such/dir/out.txt'' posix_world) = posix_world
   \<and> stat (snd (write_instructions [0x78] ''/no/such/dir/out.txt'' posix_world))
        (resolve posix_world ''/no/such/dir/out.txt'') = None"
proof -
  have h: "stat posix_world (parent (resolve posix_world ''/no/such/dir/out.txt'')) = None"
    by (simp add: posix_world_def resolve_def is_absolute_def is_sep_def parent_def stat_def)
  show ?thesis by (rule conjI [OF h missing_parent_fails [OF h]])
qed



text \<open>
  C5 (all or nothing). The script body either raises an error, or it succeeds and the
  file at the destination then holds the whole encoding of the payload: success never
  comes with a part of the payload.
\<close>

theorem all_or_nothing:
  "(\<exists>e. fst (write_instructions p d w) = Inl e)
   \<or> (fst (write_instructions p d w) = Inr ()
       \<and> (\<exists>bs. utf8_encode (translate_newlines (linesep (os w)) p) = Some bs
                \<and> file_bytes (snd (write_instructions p d w)) (resolve w d) = Some bs))"
proof (cases "fst (write_instructions p d w)")
  case (Inl e)
  then show ?thesis by simp
next
  case (Inr u)
  then have ok: "fst (write_instructions p d w) = Inr ()" by simp
  from success_file [OF ok] ok show ?thesis by (auto simp: file_bytes_def)
qed

text \<open>
  C6 (idempotence). Running the script body a second time, on the world the first run
  left, gives the same outcome and leaves every node of the file system, the destination
  among them, as the first run left it.
\<close>

theorem write_twice:
  "fst (write_instructions p d (snd (write_instructions p d w)))
     = fst (write_instructions p d w)
   \<and> nodes (snd (write_instructions p d (snd (write_instructions p d w))))
     = nodes (snd (write_instructions p d w))"
proof (cases "valid_destination w d")
  case False
  then obtain oe where "write_instructions p d w = (Inl (OSError oe), w)"
    using write_instructions_invalid by blast
  then show ?thesis by simp
next
  case True
  let ?w' = "snd (write_instructions p d w)"
  note o = outcome_world [OF True, of p]
  have v': "valid_destination ?w' d" and r': "resolve ?w' d = resolve w d"
    and m: "room ?w' (resolve w d) = free_space ?w' + length (landed w d p)"
    using valid_after [OF True o(1) o(3) o(4)] by auto
  have room': "room ?w' (resolve ?w' d) = room w (resolve w d)"
    using m landed_le [of w d p] by (simp add: r' o(2))
  have l': "landed ?w' d p = landed w d p"
    by (simp add: landed_def room' o(3) split: option.splits)
  have "fst (write_instructions p d ?w') = fst (write_instructions p d w)"
    by (simp add: outcome_result [OF v'] outcome_result [OF True] room' o(3)
          split: option.splits)
  moreover have "nodes (snd (write_instructions p d ?w')) = nodes ?w'"
    by (simp add: outcome_world(1) [OF v'] l' r' o(1))
  ultimately show ?thesis by simp
qed

text \<open>
  C8 (frame condition). The script body changes the file system at the destination only:
  every other path holds the node it held and resolves as it did, and the platform and the
  working directory are untouched; after a success the destination is a regular file.
\<close>

theorem frame_condition:
  assumes "q \<noteq> resolve w d"
  shows "nodes (snd (write_instructions p d w)) q = nodes w q
         \<and> stat (snd (write_instructions p d w)) q = stat w q
         \<and> os (snd (write_instructions p d w)) = os w
         \<and> cwd (snd (write_instructions p d w)) = cwd w
         \<and> (fst (write_instructions p d w) = Inr ()
              \<longrightarrow> (\<exists>bs. stat (snd (write_instructions p d w)) (resolve w d)
                          = Some (File True bs)))"
proof (cases "valid_destination w d")
  case False
  then obtain oe where "write_instructions p d w = (Inl (OSError oe), w)"
    using write_instructions_invalid by blast
  then show ?thesis by simp
next
  case True
  note o = outcome_world [OF True, of p]
  have "stat (snd (write_instructions p d w)) q = stat w q"
    by (rule stat_other [OF True o(1) assms])
  moreover have "nodes (snd (write_instructions p d w)) q = nodes w q"
    using assms by (simp add: o(1))
  ultimately show ?thesis using o(3,4) success_file [of p d w] by blast
qed


theorem frame_condition_witness:
  "[''other.txt''] \<noteq> resolve posix_world ''/out.txt''
   \<and> fst (write_instructions (codepoints ''hello world'') ''/out.txt'' posix_world) = Inr ()
   \<and> nodes (snd (write_instructions (codepoints ''hello world'') ''/out.txt'' posix_world))
         [''other.txt''] = nodes posix_world [''other.txt'']
   \<and> stat (snd (write_instructions (codepoints ''hello world'') ''/out.txt'' posix_world))
         [''other.txt''] = stat posix_world [''other.txt'']
   \<and> (\<exists>bs. stat (snd (write_instructions (codepoints ''hello world'') ''/out.txt''
                         posix_world)) (resolve posix_world ''/out.txt'')
              = Some (File True bs))"
proof -
  have h: "[''other.txt''] \<noteq> resolve posix_world ''/out.txt''"
    by (simp add: posix_out_resolve)
  from frame_condition [OF h, of "codepoints ''hello world''"] hello_succeeds h
  show ?thesis by blast
qed

text \<open>
  C1 (content fidelity), as amended. When the script body succeeds, the bytes of the file
  at the destination decode, with the same codec, to the payload in which every
  \<^verbatim>\<open>'\n'\<close> has been replaced by the line separator of the platform. That is the payload
  itself where the separator is \<^verbatim>\<open>'\n'\<close> or the payload has no \<^verbatim>\<open>'\n'\<close>; and reading the
  file back in text mode gives the payload itself when it has no \<^verbatim>\<open>'\r'\<close>.
\<close>

theorem read_back:
  assumes "fst (write_instructions p d w) = Inr ()"
  shows "\<exists>bs. file_bytes (snd (write_instructions p d w)) (resolve w d) = Some bs
          \<and> utf8_decode bs = Some (translate_newlines (linesep (os w)) p)
          \<and> (os w = Posix \<or> 0x0A \<notin> set p \<longrightarrow> utf8_decode bs = Some p)
          \<and> (0x0D \<notin> set p \<longrightarrow> read_text bs = Some p)"
  using success_read_back [OF assms] by blast

text \<open>The witness is the text \<^verbatim>\<open>caf\<close>, e acute, a space and U+2615 of the specification's
  fifth scenario, written on the POSIX machine.\<close>

theorem read_back_witness:
  "fst (write_instructions [0x63, 0x61, 0x66, 0xE9, 0x20, 0x2615] ''/out.txt'' posix_world)
     = Inr ()
   \<and> os posix_world = Posix
   \<and> 0x0D \<notin> set [0x63, 0x61, 0x66, 0xE9, 0x20, 0x2615 :: nat]
   \<and> (\<exists>bs. file_bytes (snd (write_instructions [0x63, 0x61, 0x66, 0xE9, 0x20, 0x2615]
                              ''/out.txt'' posix_world))
               (resolve posix_world ''/out.txt'') = Some bs
            \<and> utf8_decode bs = Some [0x63, 0x61, 0x66, 0xE9, 0x20, 0x2615]
            \<and> read_text bs = Some [0x63, 0x61, 0x66, 0xE9, 0x20, 0x2615])"
proof -
  have e: "utf8_encode (translate_newlines (linesep (os posix_world))
                          [0x63, 0x61, 0x66, 0xE9, 0x20, 0x2615])
           = Some (map byte_of [0x63, 0x61, 0x66, 0xC3, 0xA9, 0x20, 0xE2, 0x98, 0x95])"
    by (simp add: posix_os translate_newlines_lf utf8_encode_char_def is_surrogate_def)
  have ok: "fst (write_instructions [0x63, 0x61, 0x66, 0xE9, 0x20, 0x2615] ''/out.txt''
                   posix_world) = Inr ()"
    by (rule run_succeeds(1) [OF posix_out_valid e])
       (simp add: posix_out_resolve posix_out_room)
  have r: "0x0D \<notin> set [0x63, 0x61, 0x66, 0xE9, 0x20, 0x2615 :: nat]" by simp
  from read_back [OF ok] ok posix_os r show ?thesis by blast
qed

text \<open>
  The claim as stated fails on the platform the script's path belongs to: the payload
  \<^verbatim>\<open>'\r\n'\<close> is written on Windows as the three bytes \<^verbatim>\<open>0D 0D 0A\<close>, which neither decode
  nor read back in text mode to the payload.
\<close>

theorem read_back_counterexample:
  "fst (write_instructions [0x0D, 0x0A] windows_out windows_world) = Inr ()
   \<and> file_bytes (snd (write_instructions [0x0D, 0x0A] windows_out windows_world))
        (resolve windows_world windows_out) = Some [0x0D, 0x0D, 0x0A]
   \<and> utf8_decode [0x0D, 0x0D, 0x0A] \<noteq> Some [0x0D, 0x0A]
   \<and> read_text [0x0D, 0x0D, 0x0A] \<noteq> Some [0x0D, 0x0A]"
proof -
  have e: "utf8_encode (translate_newlines (linesep (os windows_world)) [0x0D, 0x0A])
           = Some [0x0D, 0x0D, 0x0A]"
    by (simp add: windows_os translate_newlines_def utf8_encode_char_def byte_of_def)
  have l: "length [0x0D, 0x0D, 0x0A :: byte] \<le> room windows_world (resolve windows_world windows_out)"
    by (simp add: windows_out_resolve windows_out_room)
  note run = run_succeeds [OF windows_out_valid e l]
  have "utf8_decode [0x0D, 0x0D, 0x0A] = Some [0x0D, 0x0D, 0x0A]" by simp
  then have "utf8_decode [0x0D, 0x0D, 0x0A] \<noteq> Some [0x0D, 0x0A]"
    and "read_text [0x0D, 0x0D, 0x0A] \<noteq> Some [0x0D, 0x0A]"
    by (simp_all add: read_text_def)
  with run show ?thesis by simp
qed

text \<open>
  C3 (overwrite, not append), as amended. When the destination already holds a file with
  any content \<open>q\<close> and the script body succeeds, the file then holds exactly the encoding
  of the payload (with its newlines translated for the platform) and nothing of \<open>q\<close>; it
  decodes to the payload itself where the line separator is \<^verbatim>\<open>'\n'\<close> or the payload has
  no \<^verbatim>\<open>'\n'\<close>, and reads back in text mode as the payload when that has no \<^verbatim>\<open>'\r'\<close>.
\<close>

theorem overwrite_not_append:
  assumes "file_bytes w (resolve w d) = Some q"
    and "fst (write_instructions p d w) = Inr ()"
  shows "\<exists>bs. utf8_encode (translate_newlines (linesep (os w)) p) = Some bs
          \<and> file_bytes (snd (write_instructions p d w)) (resolve w d) = Some bs
          \<and> (os w = Posix \<or> 0x0A \<notin> set p \<longrightarrow> utf8_decode bs = Some p)
          \<and> (0x0D \<notin> set p \<longrightarrow> read_text bs = Some p)"
  using success_read_back [OF assms(2)] by blast

text \<open>The witness is the specification's third scenario: \<^verbatim>\<open>NEW\<close> written over \<^verbatim>\<open>OLD\<close>.\<close>

theorem overwrite_not_append_witness:
  "file_bytes (with_file posix_world (resolve posix_world ''/out.txt'') old_bytes)
     (resolve (with_file posix_world (resolve posix_world ''/out.txt'') old_bytes) ''/out.txt'')
     = Some old_bytes
   \<and> fst (write_instructions (codepoints ''NEW'') ''/out.txt''
            (with_file posix_world (resolve posix_world ''/out.txt'') old_bytes)) = Inr ()
   \<and> os (with_file posix_world (resolve posix_world ''/out.txt'') old_bytes) = Posix
   \<and> 0x0D \<notin> set (codepoints ''NEW'')
   \<and> (\<exists>bs. utf8_encode (codepoints ''NEW'') = Some bs
         \<and> file_bytes (snd (write_instructions (codepoints ''NEW'') ''/out.txt''
                 (with_file posix_world (resolve posix_world ''/out.txt'') old_bytes)))
              (resolve (with_file posix_world (resolve posix_world ''/out.txt'') old_bytes)
                 ''/out.txt'') = Some bs
         \<and> utf8_decode bs = Some (codepoints ''NEW'')
         \<and> read_text bs = Some (codepoints ''NEW''))"
proof -
  let ?w = "with_file posix_world (resolve posix_world ''/out.txt'') old_bytes"
  note wf = with_file_facts [OF posix_out_valid, of old_bytes]
  have os: "os ?w = Posix" by (simp add: with_file_def posix_os)
  have q: "file_bytes ?w (resolve ?w ''/out.txt'') = Some old_bytes"
    by (simp only: wf(2) wf(3))
  have e: "utf8_encode (translate_newlines (linesep (os ?w)) (codepoints ''NEW''))
           = Some (map byte_of [0x4E, 0x45, 0x57])"
    by (simp add: os translate_newlines_lf codepoints_def utf8_encode_char_def)
  have l: "length (map byte_of [0x4E, 0x45, 0x57]) \<le> room ?w (resolve ?w ''/out.txt'')"
    by (simp add: wf(2) wf(4) posix_free)
  have ok: "fst (write_instructions (codepoints ''NEW'') ''/out.txt'' ?w) = Inr ()"
    by (rule run_succeeds(1) [OF wf(1) e l])
  have r: "0x0D \<notin> set (codepoints ''NEW'')" by (simp add: codepoints_def)
  have t: "translate_newlines (linesep (os ?w)) (codepoints ''NEW'') = codepoints ''NEW''"
    by (simp add: os translate_newlines_lf)
  from overwrite_not_append [OF q ok] os r q ok show ?thesis
    unfolding t by blast
qed

text \<open>
  The claim as stated fails: on Windows, writing \<^verbatim>\<open>'NEW\r\n'\<close> over a file holding
  \<^verbatim>\<open>OLD\<close> leaves the six bytes \<^verbatim>\<open>4E 45 57 0D 0D 0A\<close>, which neither decode nor read back
  in text mode to the payload (nothing of the old content remains, as claimed).
\<close>

theorem overwrite_not_append_counterexample:
  "file_bytes (with_file windows_world (resolve windows_world windows_out) old_bytes)
     (resolve (with_file windows_world (resolve windows_world windows_out) old_bytes)
        windows_out) = Some old_bytes
   \<and> fst (write_instructions [0x4E, 0x45, 0x57, 0x0D, 0x0A] windows_out
            (with_file windows_world (resolve windows_world windows_out) old_bytes)) = Inr ()
   \<and> file_bytes (snd (write_instructions [0x4E, 0x45, 0x57, 0x0D, 0x0A] windows_out
            (with_file windows_world (resolve windows_world windows_out) old_bytes)))
        (resolve (with_file windows_world (resolve windows_world windows_out) old_bytes)
           windows_out) = Some [0x4E, 0x45, 0x57, 0x0D, 0x0D, 0x0A]
   \<and> utf8_decode [0x4E, 0x45, 0x57, 0x0D, 0x0D, 0x0A] \<noteq> Some [0x4E, 0x45, 0x57, 0x0D, 0x0A]
   \<and> read_text [0x4E, 0x45, 0x57, 0x0D, 0x0D, 0x0A] \<noteq> Some [0x4E, 0x45, 0x57, 0x0D, 0x0A]"
proof -
  let ?w = "with_file windows_world (resolve windows_world windows_out) old_bytes"
  note wf = with_file_facts [OF windows_out_valid, of old_bytes]
  have os: "os ?w = Windows" by (simp add: with_file_def windows_os)
  have q: "file_bytes ?w (resolve ?w windows_out) = Some old_bytes"
    by (simp only: wf(2) wf(3))
  have e: "utf8_encode (translate_newlines (linesep (os ?w)) [0x4E, 0x45, 0x57, 0x0D, 0x0A])
           = Some [0x4E, 0x45, 0x57, 0x0D, 0x0D, 0x0A]"
    by (simp add: os translate_newlines_def utf8_encode_char_def byte_of_def)
  have l: "length [0x4E, 0x45, 0x57, 0x0D, 0x0D, 0x0A :: byte]
           \<le> room ?w (resolve ?w windows_out)"
    by (simp add: wf(2) wf(4) windows_free)
  note run = run_succeeds [OF wf(1) e l]
  have "utf8_decode [0x4E, 0x45, 0x57, 0x0D, 0x0D, 0x0A]
        = Some [0x4E, 0x45, 0x57, 0x0D, 0x0D, 0x0A]" by simp
  then have "utf8_decode [0x4E, 0x45, 0x57, 0x0D, 0x0D, 0x0A]
             \<noteq> Some [0x4E, 0x45, 0x57, 0x0D, 0x0A]"
    and "read_text [0x4E, 0x45, 0x57, 0x0D, 0x0D, 0x0A] \<noteq> Some [0x4E, 0x45, 0x57, 0x0D, 0x0A]"
    by (simp_all add: read_text_def)
  with run q show ?thesis by simp
qed

text \<open>
  C7 (encoding error), as amended. When the destination can be opened for writing, the
  script body fails with \<^verbatim>\<open>UnicodeEncodeError\<close> exactly when the payload has a character
  that UTF-8 cannot encode; for any destination that error is raised only for such a
  payload and is returned, not swallowed; and the run of the script on its own literal
  never raises it.
\<close>

theorem encoding_error_iff:
  "(valid_destination w d \<longrightarrow>
      (fst (write_instructions p d w) = Inl UnicodeEncodeError
       \<longleftrightarrow> (\<exists>c\<in>set p. \<not> encodable c)))
   \<and> (fst (write_instructions p d w) = Inl UnicodeEncodeError
        \<longrightarrow> (\<exists>c\<in>set p. \<not> encodable c))
   \<and> fst (main w) \<noteq> Inl UnicodeEncodeError"
proof -
  have a: "fst (write_instructions p d w) = Inl UnicodeEncodeError
           \<longleftrightarrow> (\<exists>c\<in>set p. \<not> encodable c)"
    if v: "valid_destination w d" for p d
  proof -
    have "fst (write_instructions p d w) = Inl UnicodeEncodeError
          \<longleftrightarrow> utf8_encode (translate_newlines (linesep (os w)) p) = None"
      by (simp add: outcome_result [OF v] split: option.splits)
    then show ?thesis by (simp only: utf8_encode_None encodable_translate)
  qed
  have b: "\<exists>c\<in>set p. \<not> encodable c"
    if e: "fst (write_instructions p d w) = Inl UnicodeEncodeError" for p d
  proof (cases "valid_destination w d")
    case True
    with a e show ?thesis by blast
  next
    case False
    then obtain oe where "write_instructions p d w = (Inl (OSError oe), w)"
      using write_instructions_invalid by blast
    with e show ?thesis by simp
  qed
  have "\<not> (\<exists>c\<in>set content. \<not> encodable c)"
    using content_encodable by (simp add: list_all_iff)
  with b [of content destination] have "fst (main w) \<noteq> Inl UnicodeEncodeError"
    by (auto simp: main_def)
  with a b show ?thesis by blast
qed

text \<open>The witness writes a lone surrogate, U+D800, to a destination that can be opened.\<close>

theorem encoding_error_iff_witness:
  "valid_destination posix_world ''/out.txt''
   \<and> (\<exists>c\<in>set [0xD800]. \<not> encodable c)
   \<and> fst (write_instructions [0xD800] ''/out.txt'' posix_world) = Inl UnicodeEncodeError"
proof -
  have s: "\<exists>c\<in>set [0xD800]. \<not> encodable c"
    by (simp add: encodable_def is_surrogate_def)
  from encoding_error_iff [of posix_world "''/out.txt''" "[0xD800]"] posix_out_valid s
  show ?thesis by blast
qed

text \<open>
  The claim as stated fails where the destination cannot be opened: \<^verbatim>\<open>open\<close> comes first,
  so a payload with a lone surrogate written below a missing directory fails with
  \<^verbatim>\<open>FileNotFoundError\<close>, not with an encoding error.
\<close>

theorem encoding_error_iff_counterexample:
  "\<not> encodable 0xD800
   \<and> fst (write_instructions [0xD800] ''/no/such/dir/out.txt'' posix_world)
       = Inl (OSError FileNotFoundError)
   \<and> fst (write_instructions [0xD800] ''/no/such/dir/out.txt'' posix_world)
       \<noteq> Inl UnicodeEncodeError"
  by (simp add: encodable_def is_surrogate_def write_instructions_def py_open_def
        posix_world_def resolve_def is_absolute_def is_sep_def parent_def stat_def)

text \<open>
  C10 (determinism of the script), as amended. The script has no inputs. Any two
  successful runs, whatever the two file systems held before, print the same line,
  \<^verbatim>\<open>done 2345\<close>. Any two successful runs on one platform leave the same bytes in the file
  that the path literal names, namely the encoding of the literal with its newlines
  translated for that platform; the literal names the same file in every world on
  Windows, and on any one platform whenever the two working directories agree.
\<close>

theorem run_deterministic:
  assumes "fst (main w1) = Inr ()" and "fst (main w2) = Inr ()"
  shows "stdout (snd (main w1)) = stdout w1 @ codepoints ''done 2345'' @ [0x0A]
         \<and> stdout (snd (main w2)) = stdout w2 @ codepoints ''done 2345'' @ [0x0A]
         \<and> file_bytes (snd (main w1)) (resolve w1 destination)
           = utf8_encode (translate_newlines (linesep (os w1)) content)
         \<and> file_bytes (snd (main w1)) (resolve w1 destination) \<noteq> None
         \<and> (os w1 = os w2 \<longrightarrow>
               file_bytes (snd (main w1)) (resolve w1 destination)
                 = file_bytes (snd (main w2)) (resolve w2 destination)
               \<and> (os w1 = Windows \<longrightarrow> resolve w1 destination = windows_destination
                                        \<and> resolve w2 destination = windows_destination)
               \<and> (cwd w1 = cwd w2 \<longrightarrow> resolve w1 destination = resolve w2 destination))"
proof -
  have f: "file_bytes (snd (main w)) (resolve w destination)
             = utf8_encode (translate_newlines (linesep (os w)) content)
           \<and> file_bytes (snd (main w)) (resolve w destination) \<noteq> None"
    if "fst (main w) = Inr ()" for w
    using success_read_back [of content destination w] that by (auto simp: main_def)
  have r: "report content = codepoints ''done 2345'' @ [0x0A]"
    by (simp add: report_def length_content codepoints_def str_nat.simps)
  have o: "stdout (snd (main w)) = stdout w @ codepoints ''done 2345'' @ [0x0A]"
    if ok: "fst (main w) = Inr ()" for w
  proof -
    from ok have "fst (write_instructions content destination w) = Inr ()"
      by (simp add: main_def)
    then obtain bs where "snd (write_instructions content destination w)
        = (written w (resolve w destination) bs)\<lparr>stdout := stdout w @ report content\<rparr>"
      by (rule success_cases)
    then show ?thesis by (simp add: main_def r)
  qed
  have e1: "file_bytes (snd (main w1)) (resolve w1 destination)
             = utf8_encode (translate_newlines (linesep (os w1)) content)"
    and n1: "file_bytes (snd (main w1)) (resolve w1 destination) \<noteq> None"
    using f [OF assms(1)] by blast+
  have e2: "file_bytes (snd (main w2)) (resolve w2 destination)
             = utf8_encode (translate_newlines (linesep (os w2)) content)"
    using f [OF assms(2)] by blast
  have eq: "file_bytes (snd (main w1)) (resolve w1 destination)
             = file_bytes (snd (main w2)) (resolve w2 destination)"
    if "os w1 = os w2"
    using that by (simp add: e1 e2)
  have win: "resolve w1 destination = windows_destination
             \<and> resolve w2 destination = windows_destination"
    if "os w1 = os w2" "os w1 = Windows"
    using windows_destination_resolve [of w1] windows_destination_resolve [of w2] that
    by simp
  have same: "resolve w1 destination = resolve w2 destination"
    if "os w1 = os w2" "cwd w1 = cwd w2"
    using that by (simp add: resolve_def)
  from eq e1 n1 o [OF assms(1)] o [OF assms(2)] win same show ?thesis by blast
qed

text \<open>The witness runs the script on the Windows machine twice: once with no file at the
  destination, once with a file holding \<^verbatim>\<open>OLD\<close> there.\<close>

theorem run_deterministic_witness:
  "fst (main windows_world) = Inr ()
   \<and> fst (main (with_file windows_world (resolve windows_world destination) old_bytes))
       = Inr ()
   \<and> os windows_world
       = os (with_file windows_world (resolve windows_world destination) old_bytes)
   \<and> os windows_world = Windows
   \<and> cwd windows_world
       = cwd (with_file windows_world (resolve windows_world destination) old_bytes)
   \<and> file_bytes (snd (main windows_world)) (resolve windows_world destination)
       = file_bytes
           (snd (main (with_file windows_world (resolve windows_world destination) old_bytes)))
           (resolve (with_file windows_world (resolve windows_world destination) old_bytes)
              destination)
   \<and> resolve windows_world destination
       = resolve (with_file windows_world (resolve windows_world destination) old_bytes)
           destination
   \<and> resolve windows_world destination = windows_destination
   \<and> stdout (snd (main windows_world))
       = stdout windows_world @ codepoints ''done 2345'' @ [0x0A]"
proof -
  let ?w = "with_file windows_world (resolve windows_world destination) old_bytes"
  note wf = with_file_facts [OF windows_destination_valid, of old_bytes]
  have 1: "fst (main windows_world) = Inr ()"
    by (rule main_succeeds [OF windows_destination_valid])
       (simp add: windows_destination_resolve [OF windows_os] windows_destination_room)
  have 2: "fst (main ?w) = Inr ()"
    by (rule main_succeeds [OF wf(1)]) (simp add: wf(2) wf(4) windows_free)
  have 3: "os windows_world = os ?w" by (simp add: with_file_def)
  have 4: "cwd windows_world = cwd ?w" by (simp add: with_file_def)
  from run_deterministic [OF 1 2] 1 2 3 4 windows_os show ?thesis by blast
qed

text \<open>
  The claim as stated fails. Across platforms two successful runs leave different bytes:
  the run on the POSIX machine and the run on the Windows machine both succeed, and the
  two files differ (the Windows one has a carriage return before each of the literal's
  newlines). And on one platform the literal need not name one file: it is a relative
  path on POSIX, so two successful runs from different working directories write to
  different files.
\<close>

theorem run_deterministic_counterexample:
  "fst (main posix_world) = Inr ()
   \<and> fst (main windows_world) = Inr ()
   \<and> file_bytes (snd (main posix_world)) (resolve posix_world destination)
       \<noteq> file_bytes (snd (main windows_world)) (resolve windows_world destination)
   \<and> fst (main posix_home_world) = Inr ()
   \<and> os posix_home_world = os posix_world
   \<and> resolve posix_home_world destination \<noteq> resolve posix_world destination"
proof -
  have p: "fst (main posix_world) = Inr ()"
    by (rule main_succeeds [OF posix_destination_valid])
       (simp add: posix_destination_room)
  have w: "fst (main windows_world) = Inr ()"
    by (rule main_succeeds [OF windows_destination_valid])
       (simp add: windows_destination_resolve [OF windows_os] windows_destination_room)
  have h: "fst (main posix_home_world) = Inr ()"
    by (rule main_succeeds [OF posix_home_destination_valid])
       (simp add: posix_home_destination_room)
  from success_read_back [of content destination posix_world] p
  obtain bp where bp: "file_bytes (snd (main posix_world)) (resolve posix_world destination)
                         = Some bp"
    and dp: "utf8_decode bp = Some content"
    by (auto simp: main_def posix_os translate_newlines_lf)
  from success_read_back [of content destination windows_world] w
  obtain bw where bw: "file_bytes (snd (main windows_world))
                         (resolve windows_world destination) = Some bw"
    and dw: "utf8_decode bw = Some (translate_newlines [0x0D, 0x0A] content)"
    by (auto simp: main_def windows_os)
  have "bp \<noteq> bw"
  proof
    assume "bp = bw"
    with dp dw have "content = translate_newlines [0x0D, 0x0A] content" by simp
    with translate_crlf_longer [OF content_has_newline] show False by simp
  qed
  with bp bw have d: "file_bytes (snd (main posix_world)) (resolve posix_world destination)
       \<noteq> file_bytes (snd (main windows_world)) (resolve windows_world destination)"
    by simp
  have o: "os posix_home_world = os posix_world"
    by (simp add: posix_home_os posix_os)
  have r: "resolve posix_home_world destination \<noteq> resolve posix_world destination"
    unfolding posix_destination_resolve [OF posix_home_os]
      posix_destination_resolve [OF posix_os]
    by (simp add: posix_home_world_def posix_world_def)
  from p w d h o r show ?thesis by blast
qed

end
